theory Spec2Isabelle
  imports Main
begin

section \<open>Python values used by \<^verbatim>\<open>scripts/create-icons.py\<close>\<close>

text \<open>
  The script is a module of two functions, \<^verbatim>\<open>create_icon\<close> and \<^verbatim>\<open>main\<close>, and a guarded
  entry point. Its integers are Python's unbounded ints (\<open>int\<close>; \<^verbatim>\<open>//\<close> is floor
  division, which is \<open>div\<close> on \<open>int\<close>), its strings are byte lists (UTF-8), and the three
  float products \<^verbatim>\<open>int(size * 0.6)\<close>, \<^verbatim>\<open>int(h * 0.7)\<close>, \<^verbatim>\<open>int(h * 0.9)\<close> are IEEE-754
  binary64 products, modelled exactly over the integers.
\<close>

datatype py_error = ImportError | OverflowError

subsection \<open>binary64 arithmetic, as far as the script uses it\<close>

text \<open>The number of binary digits of a non-negative int (Python's \<^verbatim>\<open>int.bit_length\<close>).\<close>

function bit_length :: "int \<Rightarrow> nat" where
  "bit_length n = (if n \<le> 0 then 0 else Suc (bit_length (n div 2)))"
  by pat_completeness auto
termination
  by (relation "measure nat") auto

declare bit_length.simps [simp del]

text \<open>
  Rounding a non-negative int to 53 significant bits, to nearest, ties to even: the
  rounding of every binary64 operation. The result is again an int.
\<close>

definition round53 :: "int \<Rightarrow> int" where
  "round53 n =
     (let l = bit_length n in
      if l \<le> 53 then n
      else
        let s = l - 53;
            q = n div 2 ^ s;
            r = n mod 2 ^ s;
            half = 2 ^ (s - 1)
        in (if half < r \<or> (r = half \<and> odd q) then q + 1 else q) * 2 ^ s)"

text \<open>
  The conversion of the int operand of \<^verbatim>\<open>n * c\<close> to a float. The result is the nearest
  binary64 number, which is an integer; Python raises OverflowError
  (\<^verbatim>\<open>int too large to convert to float\<close>) when it would reach \<open>2 ^ 1024\<close>.
\<close>

definition float_of_int :: "int \<Rightarrow> py_error + int" where
  "float_of_int n =
     (let a = round53 \<bar>n\<bar> in
      if 2 ^ 1024 \<le> a then Inl OverflowError else Inr (sgn n * a))"

text \<open>The ints that \<^verbatim>\<open>n * c\<close> converts without raising.\<close>

definition representable :: "int \<Rightarrow> bool" where
  "representable n \<longleftrightarrow> float_of_int n \<noteq> Inl OverflowError"

text \<open>
  The float literals of the script, as the numerators of their binary64 values over
  \<open>2 ^ 53\<close>: \<^verbatim>\<open>0.6 = 0x1.3333333333333p-1\<close>, \<^verbatim>\<open>0.7 = 0x1.6666666666666p-1\<close>,
  \<^verbatim>\<open>0.9 = 0x1.ccccccccccccdp-1\<close>.
\<close>

definition lit_0_6 :: int where
  "lit_0_6 = 5404319552844595"

definition lit_0_7 :: int where
  "lit_0_7 = 6305039478318694"

definition lit_0_9 :: int where
  "lit_0_9 = 8106479329266893"

text \<open>
  \<^verbatim>\<open>int(n * c)\<close> for an int \<open>n\<close> and the float \<open>c = m / 2 ^ 53\<close> with \<open>1/2 \<le> c < 1\<close>: convert
  \<open>n\<close>, round the exact product to 53 significant bits, truncate towards zero. With
  \<open>c\<close> in that range the product of a finite integer-valued float neither overflows nor
  becomes subnormal, so the conversion is the only step that can raise.
\<close>

definition int_of_product :: "int \<Rightarrow> int \<Rightarrow> py_error + int" where
  "int_of_product n m =
     (case float_of_int n of
        Inl e \<Rightarrow> Inl e
      | Inr a \<Rightarrow> Inr (sgn a * (round53 (\<bar>a\<bar> * m) div 2 ^ 53)))"

subsection \<open>Strings\<close>

text \<open>\<^verbatim>\<open>str(n)\<close> of an int, as the f-strings of the script format it.\<close>

function str_nat :: "int \<Rightarrow> string" where
  "str_nat n =
     (if n < 10 then [char_of (48 + n)]
      else str_nat (n div 10) @ [char_of (48 + n mod 10)])"
  by pat_completeness auto
termination
  by (relation "measure nat") auto

declare str_nat.simps [simp del]

definition str_int :: "int \<Rightarrow> string" where
  "str_int i = (if i < 0 then CHR ''-'' # str_nat (- i) else str_nat i)"

section \<open>The drawing library and the effects of the script\<close>

text \<open>
  Pillow and the file system are not part of the repository. An image is the
  arguments of \<^verbatim>\<open>Image.new\<close> together with the drawing calls made on it, in order; the
  effects of a run are its calls to \<^verbatim>\<open>os.makedirs\<close>, \<^verbatim>\<open>img.save\<close> and \<^verbatim>\<open>print\<close>, in order.
\<close>

type_synonym rgb = "int \<times> int \<times> int"

type_synonym rgba = "int \<times> int \<times> int \<times> int"

datatype draw_cmd =
    RoundedRectangle "int list" int rgb
  | Polygon "int list" rgb
  | Ellipse "int list" rgb
  | Rectangle "int list" rgb

record image =
  mode :: string
  dims :: "int \<times> int"
  color :: rgba
  ops :: "draw_cmd list"

datatype event =
    MakeDirs string bool
  | Save image string string
  | Print string

definition Image_new :: "string \<Rightarrow> int \<times> int \<Rightarrow> rgba \<Rightarrow> image" where
  "Image_new m d c = \<lparr>mode = m, dims = d, color = c, ops = []\<rparr>"

definition draw :: "draw_cmd \<Rightarrow> image \<Rightarrow> image" where
  "draw c im = im\<lparr>ops := ops im @ [c]\<rparr>"


fun xy :: "draw_cmd \<Rightarrow> int list" where
  "xy (RoundedRectangle b r f) = b"
| "xy (Polygon b f) = b"
| "xy (Ellipse b f) = b"
| "xy (Rectangle b f) = b"

text \<open>The images a run has written, in order: the content of its files.\<close>

fun saved :: "event list \<Rightarrow> image list" where
  "saved [] = []"
| "saved (Save im filename fmt # evs) = im # saved evs"
| "saved (MakeDirs d exist_ok # evs) = saved evs"
| "saved (Print line # evs) = saved evs"

text \<open>
  What a call has done when it returns or raises: the image it was drawing, the
  effects so far, and the exception that ended it, if any.
\<close>

record frame =
  img :: image
  effects :: "event list"
  raised :: "py_error option"

section \<open>\<^verbatim>\<open>create_icon\<close>\<close>

definition bg_color :: rgb where
  "bg_color = (37, 99, 235)"

definition text_color :: rgb where
  "text_color = (255, 255, 255)"

definition badge_green :: rgb where
  "badge_green = (52, 211, 153)"

text \<open>Lines 47 to 69: the plus badge, drawn for sizes from 32.\<close>

definition draw_plus :: "int \<Rightarrow> image \<Rightarrow> image" where
  "draw_plus size' im =
     (if 32 \<le> size' then
        let plus_size = size' div 8;
            plus_x = size' - plus_size - 2;
            plus_y = 2;
            im = draw (Ellipse [plus_x - 2, plus_y - 2, plus_x + plus_size + 2, plus_y + plus_size + 2]
                        badge_green) im;
            plus_thickness = max 1 (plus_size div 4);
            im = draw (Rectangle
                        [plus_x + plus_size div 2 - plus_thickness div 2, plus_y,
                         plus_x + plus_size div 2 + plus_thickness div 2, plus_y + plus_size]
                        text_color) im;
            im = draw (Rectangle
                        [plus_x, plus_y + plus_size div 2 - plus_thickness div 2,
                         plus_x + plus_size, plus_y + plus_size div 2 + plus_thickness div 2]
                        text_color) im
        in im
      else im)"

text \<open>Lines 36 to 42: the flat coordinate list of the bookmark polygon.\<close>

definition bookmark_points :: "int \<Rightarrow> int \<Rightarrow> int \<Rightarrow> int \<Rightarrow> int \<Rightarrow> int \<Rightarrow> int list" where
  "bookmark_points bookmark_x bookmark_y bookmark_width h70 h90 h70' =
     [bookmark_x, bookmark_y,
      bookmark_x + bookmark_width, bookmark_y,
      bookmark_x + bookmark_width, bookmark_y + h70,
      bookmark_x + bookmark_width div 2, bookmark_y + h90,
      bookmark_x, bookmark_y + h70']"

text \<open>
  The whole function. The three float products are the only statements of the body
  that Python itself can end with an exception; a raise leaves the image as drawn so
  far and performs no effect.
\<close>

definition create_icon :: "int \<Rightarrow> string \<Rightarrow> frame" where
  "create_icon size' filename =
     (let im = Image_new ''RGBA'' (size', size') (0, 0, 0, 0);
          margin = size' div 8;
          im = draw (RoundedRectangle [margin, margin, size' - margin, size' - margin]
                      (size' div 6) bg_color) im;
          bookmark_width = size' div 2
      in case int_of_product size' lit_0_6 of
           Inl e \<Rightarrow> \<lparr>img = im, effects = [], raised = Some e\<rparr>
         | Inr bookmark_height \<Rightarrow>
            (let bookmark_x = (size' - bookmark_width) div 2;
                 bookmark_y = (size' - bookmark_height) div 2
             in case int_of_product bookmark_height lit_0_7 of
                  Inl e \<Rightarrow> \<lparr>img = im, effects = [], raised = Some e\<rparr>
                | Inr h70 \<Rightarrow>
                   (case int_of_product bookmark_height lit_0_9 of
                      Inl e \<Rightarrow> \<lparr>img = im, effects = [], raised = Some e\<rparr>
                    | Inr h90 \<Rightarrow>
                       (case int_of_product bookmark_height lit_0_7 of
                          Inl e \<Rightarrow> \<lparr>img = im, effects = [], raised = Some e\<rparr>
                        | Inr h70' \<Rightarrow>
                           (let im = draw (Polygon
                                       (bookmark_points bookmark_x bookmark_y bookmark_width h70 h90 h70')
                                       text_color) im;
                                im = draw_plus size' im
                            in \<lparr>img = im,
                                effects =
                                  [Save im filename ''PNG'',
                                   Print (''Created '' @ filename @ '' ('' @ str_int size' @ ''x''
                                          @ str_int size' @ '')'')],
                                raised = None\<rparr>)))))"

section \<open>\<^verbatim>\<open>main\<close> and the entry point\<close>

subsection \<open>\<^verbatim>\<open>os.path\<close> on POSIX path strings\<close>

definition slash :: char where
  "slash = CHR ''/''"

text \<open>\<^verbatim>\<open>s.rstrip('/')\<close>.\<close>

definition rstrip_slash :: "string \<Rightarrow> string" where
  "rstrip_slash s = rev (dropWhile (\<lambda>c. c = slash) (rev s))"

text \<open>
  \<^verbatim>\<open>os.path.dirname\<close>: the part up to and including the last slash, with its trailing
  slashes removed unless it consists of slashes only.
\<close>

definition dirname :: "string \<Rightarrow> string" where
  "dirname p =
     (let head = rev (dropWhile (\<lambda>c. c \<noteq> slash) (rev p)) in
      if head \<noteq> [] \<and> head \<noteq> replicate (length head) slash then rstrip_slash head else head)"

text \<open>\<^verbatim>\<open>os.path.join\<close>: one step of its loop over the later components, and the loop.\<close>

definition join_step :: "string \<Rightarrow> string \<Rightarrow> string" where
  "join_step path b =
     (if b \<noteq> [] \<and> hd b = slash then b
      else if path = [] \<or> last path = slash then path @ b
      else path @ [slash] @ b)"

definition join :: "string \<Rightarrow> string list \<Rightarrow> string" where
  "join a ps = foldl join_step a ps"

subsection \<open>The driver\<close>

text \<open>
  The \<^verbatim>\<open>for size in sizes\<close> loop of \<^verbatim>\<open>main\<close>: the effects of the calls made, and the
  exception that ended the loop, if any.
\<close>

fun for_sizes :: "string \<Rightarrow> int list \<Rightarrow> event list \<times> py_error option" where
  "for_sizes icons_dir [] = ([], None)"
| "for_sizes icons_dir (size' # sizes) =
     (let filename = join icons_dir [''icon'' @ str_int size' @ ''.png''];
          r = create_icon size' filename
      in case raised r of
           Some e \<Rightarrow> (effects r, Some e)
         | None \<Rightarrow> (case for_sizes icons_dir sizes of (evs, x) \<Rightarrow> (effects r @ evs, x)))"

definition summary :: "string \<Rightarrow> event list" where
  "summary icons_dir =
     [Print ([CHR 0x0A, CHR 0xE2, CHR 0x9C, CHR 0x85] @ '' All icons created successfully!''),
      Print ([CHR 0xF0, CHR 0x9F, CHR 0x93, CHR 0x81] @ '' Icons saved to: '' @ icons_dir),
      Print (CHR 0x0A # ''Next steps:''),
      Print ''1. Review the generated icons'',
      Print ''2. Consider creating custom icons with a design tool if needed'',
      Print ''3. Update your extension manifest if necessary'']"

text \<open>
  \<^verbatim>\<open>main\<close>, given the value of \<^verbatim>\<open>os.path.abspath(__file__)\<close>: the absolute, normalised
  path of the script file.
\<close>

definition main :: "string \<Rightarrow> event list \<times> py_error option" where
  "main abs_file =
     (let script_dir = dirname abs_file;
          icons_dir = join (dirname script_dir) [''extension'', ''icons''];
          sizes = [16, 32, 48, 128]
      in case for_sizes icons_dir sizes of
           (evs, Some e) \<Rightarrow> (MakeDirs icons_dir True # evs, Some e)
         | (evs, None) \<Rightarrow> (MakeDirs icons_dir True # evs @ summary icons_dir, None))"

subsection \<open>The module, run as a script\<close>

text \<open>
  What the run depends on: whether \<^verbatim>\<open>from PIL import ...\<close> finds the library, and where
  the script file is.
\<close>

record env =
  pillow_installed :: bool
  abs_file :: string

datatype exit_status = Normal | Traceback py_error

definition message :: "py_error \<Rightarrow> string" where
  "message e =
     (case e of
        ImportError \<Rightarrow> ''No module named '' @ [CHR 0x27] @ ''PIL'' @ [CHR 0x27]
      | OverflowError \<Rightarrow> ''int too large to convert to float'')"

text \<open>Lines 99 to 108: the \<^verbatim>\<open>try\<close> statement around the call of \<^verbatim>\<open>main\<close>.\<close>

definition entry_point :: "string \<Rightarrow> event list \<times> exit_status" where
  "entry_point file =
     (case main file of
        (evs, None) \<Rightarrow> (evs, Normal)
      | (evs, Some ImportError) \<Rightarrow>
          (evs @
           [Print ([CHR 0xE2, CHR 0x9D, CHR 0x8C] @ '' Error: Pillow library not found''),
            Print ''Install it with: pip install Pillow'',
            Print ''Or create icons manually using any image editor''],
           Normal)
      | (evs, Some e) \<Rightarrow>
          (evs @
           [Print ([CHR 0xE2, CHR 0x9D, CHR 0x8C] @ '' Error creating icons: '' @ message e),
            Print ''You can create icons manually using any image editor''],
           Normal))"

text \<open>
  The statements of the module in order: the import of line 7, which stands before
  and outside the \<^verbatim>\<open>try\<close> statement, then the definitions, then the entry point.
\<close>

definition run_script :: "env \<Rightarrow> event list \<times> exit_status" where
  "run_script e =
     (if \<not> pillow_installed e then ([], Traceback ImportError)
      else entry_point (abs_file e))"

section \<open>Properties of the float products\<close>

text \<open>
  Rounding to 53 significant bits moves a non-negative int by at most one part in
  \<open>2 ^ 53\<close> upwards, so that a product with a literal \<open>c\<close> a little below one stays
  between zero and the int operand, and converts again whenever the operand did.
\<close>

lemma bit_length_0: "bit_length 0 = 0"
  by (simp add: bit_length.simps)

lemma bit_length_pos: "0 < n \<Longrightarrow> bit_length n = Suc (bit_length (n div 2))"
  by (subst bit_length.simps) simp

lemma bit_length_bounds: "0 < n \<Longrightarrow> 2 ^ (bit_length n - 1) \<le> n \<and> n < 2 ^ bit_length n"
proof (induction n rule: bit_length.induct)
  case (1 n)
  show ?case
  proof (cases "n div 2 = 0")
    case True
    with "1.prems" have "n = 1" by presburger
    then show ?thesis by (simp add: bit_length_pos bit_length_0)
  next
    case False
    with "1.prems" have pos: "0 < n div 2" by presburger
    from "1.prems" have "\<not> n \<le> 0" by simp
    from "1.IH" [OF this pos]
    have ih: "2 ^ (bit_length (n div 2) - 1) \<le> n div 2" "n div 2 < 2 ^ bit_length (n div 2)"
      by simp_all
    from pos have "bit_length (n div 2) = Suc (bit_length (n div 2 div 2))"
      by (rule bit_length_pos)
    then obtain k where k: "bit_length (n div 2) = Suc k" by blast
    have bl: "bit_length n = Suc (Suc k)"
      using bit_length_pos [OF "1.prems"] k by simp
    from ih k have "2 ^ k \<le> n div 2" "n div 2 < 2 * 2 ^ k" by simp_all
    then have "2 * 2 ^ k \<le> n" "n < 2 * (2 * 2 ^ k)" by presburger+
    then show ?thesis by (simp add: bl)
  qed
qed

lemma round53_bounds:
  assumes "0 \<le> n"
  shows "0 \<le> round53 n \<and> 2 ^ 53 * round53 n \<le> (2 ^ 53 + 1) * n"
proof (cases "bit_length n \<le> 53")
  case True
  with assms show ?thesis by (simp add: round53_def)
next
  case False
  then have npos: "0 < n"
    using assms bit_length_0 by (cases "n = 0") auto
  define s where "s = bit_length n - 53"
  define q where "q = n div 2 ^ s"
  define r where "r = n mod 2 ^ s"
  define half :: int where "half = 2 ^ (s - 1)"
  have s1: "1 \<le> s" using False by (simp add: s_def)
  have n_eq: "n = q * 2 ^ s + r" unfolding q_def r_def by (rule div_mult_mod_eq [symmetric])
  have r_bounds: "0 \<le> r" "r < 2 ^ s" by (simp_all add: r_def)
  have q0: "0 \<le> q" using npos by (simp add: q_def pos_imp_zdiv_nonneg_iff)
  have two_half: "(2::int) ^ s = 2 * half"
    using s1 by (simp add: half_def power_eq_if)
  have "bit_length n - 1 = 52 + s" using False by (simp add: s_def)
  with bit_length_bounds [OF npos] have "(2::int) ^ (52 + s) \<le> n" by simp
  then have big: "2 ^ 53 * half \<le> n"
    using two_half by (simp add: power_add)
  have r53: "round53 n = (if half < r \<or> (r = half \<and> odd q) then q + 1 else q) * 2 ^ s"
    using False by (simp add: round53_def Let_def s_def q_def r_def half_def)
  have p2: "(0::int) \<le> 2 ^ s" by simp
  have lo: "0 \<le> round53 n"
    unfolding r53 using q0 p2 by (simp split: if_splits)
  have up: "round53 n \<le> n + half"
  proof (cases "half < r \<or> (r = half \<and> odd q)")
    case True
    then have "half \<le> r" by auto
    moreover have "round53 n = q * 2 ^ s + 2 ^ s"
      using True r53 by (simp add: algebra_simps)
    ultimately show ?thesis using n_eq two_half by linarith
  next
    case False
    then have "round53 n = q * 2 ^ s" using r53 by simp
    moreover have "0 \<le> half" by (simp add: half_def)
    ultimately show ?thesis using n_eq r_bounds by linarith
  qed
  have "2 ^ 53 * round53 n \<le> 2 ^ 53 * (n + half)"
    using up by simp
  also have "\<dots> \<le> 2 ^ 53 * n + n" using big by (simp add: algebra_simps)
  also have "\<dots> = (2 ^ 53 + 1) * n" by (simp add: algebra_simps)
  finally show ?thesis using lo by simp
qed


lemma round53_0: "round53 0 = 0"
  by (simp add: round53_def bit_length_0)

lemma cancel_cube:
  fixes K :: int
  assumes "0 < K" "K * K * K * x \<le> K * K * K * y"
  shows "x \<le> y"
proof -
  from assms(1) have "0 < K * K * K" by simp
  with assms(2) show ?thesis by (simp only: mult_le_cancel_left_pos)
qed

lemma int_of_product_bounds:
  assumes n: "0 \<le> n" and m: "0 \<le> m"
    and c: "(2 ^ 53 + 1) * (2 ^ 53 + 1) * m \<le> 2 ^ 53 * 2 ^ 53 * 2 ^ 53"
    and r: "int_of_product n m = Inr h"
  shows "0 \<le> h \<and> h \<le> n \<and> round53 h \<le> round53 n"
proof -
  define K :: int where "K = 2 ^ 53"
  define a where "a = round53 n"
  define R where "R = round53 (a * m)"
  define X where "X = R div K"
  have K0: "0 < K" by (simp add: K_def)
  have a_bounds: "0 \<le> a" "K * a \<le> (K + 1) * n"
    using round53_bounds [OF n] by (simp_all add: a_def K_def)
  have sgn_a: "sgn n * a = a"
    using n by (cases "n = 0") (simp_all add: a_def round53_0)
  from r n have conv: "float_of_int n = Inr a"
    by (simp add: int_of_product_def float_of_int_def Let_def a_def [symmetric] sgn_a
        split: if_splits sum.splits)
  from r conv a_bounds(1) have h: "h = sgn a * X"
    by (simp add: int_of_product_def X_def R_def K_def)
  have am: "0 \<le> a * m" using a_bounds(1) m by simp
  have R_bounds: "0 \<le> R" "K * R \<le> (K + 1) * (a * m)"
    using round53_bounds [OF am] by (simp_all add: R_def K_def)
  have X0: "0 \<le> X"
    using R_bounds(1) K0 by (simp add: X_def pos_imp_zdiv_nonneg_iff)
  have "K * X + R mod K = R" unfolding X_def by (rule mult_div_mod_eq)
  moreover have "0 \<le> R mod K" using K0 by simp
  ultimately have KX: "K * X \<le> R" by linarith
  have h_bounds: "0 \<le> h" "h \<le> X"
    using X0 a_bounds(1) by (cases "a = 0"; simp add: h)+
  have c': "(K + 1) * (K + 1) * m \<le> K * K * K"
    using c by (simp add: K_def)
  have KK: "0 \<le> K * K" "0 \<le> K" "0 \<le> K + 1" using K0 by simp_all
  have step1: "K * K * (K * X) \<le> K * K * R"
    using KX KK(1) by (rule mult_left_mono)
  have step2: "K * (K * R) \<le> K * ((K + 1) * (a * m))"
    using R_bounds(2) KK(2) by (rule mult_left_mono)
  have "0 \<le> (K + 1) * m" using KK(3) m by simp
  with a_bounds(2) have step3: "((K + 1) * m) * (K * a) \<le> ((K + 1) * m) * ((K + 1) * n)"
    by (rule mult_left_mono)
  from c' n have step4: "((K + 1) * (K + 1) * m) * n \<le> (K * K * K) * n"
    by (rule mult_right_mono)
  have "K * K * K * X = K * K * (K * X)" by (simp add: algebra_simps)
  also note step1
  also have "K * K * R = K * (K * R)" by (simp add: algebra_simps)
  also note step2
  also have "K * ((K + 1) * (a * m)) = ((K + 1) * m) * (K * a)" by (simp add: algebra_simps)
  also note step3
  also have "((K + 1) * m) * ((K + 1) * n) = ((K + 1) * (K + 1) * m) * n"
    by (simp add: algebra_simps)
  also note step4
  finally have "X \<le> n" using K0 by (rule cancel_cube [rotated])
  with h_bounds have hn: "h \<le> n" by simp
  have rh: "K * round53 h \<le> (K + 1) * h"
    using round53_bounds [OF h_bounds(1)] by (simp add: K_def)
  have "(K + 1) * h \<le> (K + 1) * X"
    using h_bounds(2) KK(3) by (rule mult_left_mono)
  with rh have "K * round53 h \<le> (K + 1) * X" by simp
  with KK(1) have s1: "K * K * (K * round53 h) \<le> K * K * ((K + 1) * X)"
    by (rule mult_left_mono [rotated])
  have "0 \<le> (K + 1) * K" using K0 by simp
  with KX have s2: "((K + 1) * K) * (K * X) \<le> ((K + 1) * K) * R"
    by (rule mult_left_mono)
  from R_bounds(2) KK(3) have s3: "(K + 1) * (K * R) \<le> (K + 1) * ((K + 1) * (a * m))"
    by (rule mult_left_mono)
  from c' a_bounds(1) have s4: "((K + 1) * (K + 1) * m) * a \<le> (K * K * K) * a"
    by (rule mult_right_mono)
  have "K * K * K * round53 h = K * K * (K * round53 h)" by (simp add: algebra_simps)
  also note s1
  also have "K * K * ((K + 1) * X) = ((K + 1) * K) * (K * X)" by (simp add: algebra_simps)
  also note s2
  also have "((K + 1) * K) * R = (K + 1) * (K * R)" by (simp add: algebra_simps)
  also note s3
  also have "(K + 1) * ((K + 1) * (a * m)) = ((K + 1) * (K + 1) * m) * a"
    by (simp add: algebra_simps)
  also note s4
  finally have "round53 h \<le> a" using K0 by (rule cancel_cube [rotated])
  with h_bounds(1) hn show ?thesis by (simp add: a_def)
qed

lemma literal_bounds:
  "0 \<le> lit_0_6" "(2 ^ 53 + 1) * (2 ^ 53 + 1) * lit_0_6 \<le> 2 ^ 53 * 2 ^ 53 * 2 ^ 53"
  "0 \<le> lit_0_7" "(2 ^ 53 + 1) * (2 ^ 53 + 1) * lit_0_7 \<le> 2 ^ 53 * 2 ^ 53 * 2 ^ 53"
  "0 \<le> lit_0_9" "(2 ^ 53 + 1) * (2 ^ 53 + 1) * lit_0_9 \<le> 2 ^ 53 * 2 ^ 53 * 2 ^ 53"
  by (simp_all add: lit_0_6_def lit_0_7_def lit_0_9_def)

text \<open>
  Below \<open>2 ^ 1023\<close> every int converts, and below \<open>2 ^ 53\<close> it converts exactly. Rounding
  also moves a non-negative int by at most one part in \<open>2 ^ 53\<close> downwards, never
  below a multiple of \<open>2 ^ 53\<close> that the int has reached, and an int just below such a
  multiple is rounded up to it.
\<close>

lemma representable_below:
  assumes "\<bar>n\<bar> < 2 ^ 1023"
  shows "representable n"
proof -
  define B :: int where "B = 2 ^ 1023"
  define R where "R = round53 \<bar>n\<bar>"
  have "9007199254740992 * R \<le> 9007199254740993 * \<bar>n\<bar>"
    using round53_bounds [of "\<bar>n\<bar>"] by (simp add: R_def)
  moreover have "\<bar>n\<bar> < B" using assms by (simp add: B_def)
  ultimately have "R < 2 * B" by linarith
  moreover have "(2::int) ^ 1024 = 2 * B" by (simp add: B_def)
  ultimately show ?thesis
    by (simp add: representable_def float_of_int_def Let_def R_def [symmetric])
qed

lemma bit_length_le:
  assumes "0 \<le> n" "n < 2 ^ k"
  shows "bit_length n \<le> k"
proof (cases "n = 0")
  case True
  then show ?thesis by (simp add: bit_length_0)
next
  case False
  with assms have "0 < n" by simp
  from bit_length_bounds [OF this] assms(2) have "(2::int) ^ (bit_length n - 1) < 2 ^ k" by linarith
  then have "bit_length n - 1 < k" by simp
  then show ?thesis by simp
qed

lemma bit_length_gt:
  assumes "2 ^ k \<le> n"
  shows "k < bit_length n"
proof -
  have "(0::int) < 2 ^ k" by simp
  with assms have "0 < n" by linarith
  from bit_length_bounds [OF this] assms have "(2::int) ^ k < 2 ^ bit_length n" by linarith
  then show ?thesis by simp
qed

lemma round53_small: "0 \<le> n \<Longrightarrow> n < 2 ^ 53 \<Longrightarrow> round53 n = n"
  using bit_length_le [of n 53] by (simp add: round53_def)

lemma float_of_int_exact:
  assumes "0 \<le> n" "n < 2 ^ 53"
  shows "float_of_int n = Inr n"
proof -
  have "sgn n * n = n" using assms(1) by (cases "n = 0") simp_all
  moreover have "\<not> (2::int) ^ 1024 \<le> n" using assms(2) by simp
  ultimately show ?thesis
    using round53_small [OF assms] assms(1) by (simp add: float_of_int_def)
qed

lemma round53_lower:
  assumes "0 \<le> n"
  shows "(2 ^ 53 - 1) * n \<le> 2 ^ 53 * round53 n"
proof (cases "bit_length n \<le> 53")
  case True
  with assms show ?thesis by (simp add: round53_def)
next
  case False
  then have npos: "0 < n"
    using assms bit_length_0 by (cases "n = 0") auto
  define s where "s = bit_length n - 53"
  define q where "q = n div 2 ^ s"
  define r where "r = n mod 2 ^ s"
  define half :: int where "half = 2 ^ (s - 1)"
  have s1: "1 \<le> s" using False by (simp add: s_def)
  have n_eq: "n = q * 2 ^ s + r" unfolding q_def r_def by (rule div_mult_mod_eq [symmetric])
  have r_bounds: "0 \<le> r" "r < 2 ^ s" by (simp_all add: r_def)
  have two_half: "(2::int) ^ s = 2 * half"
    using s1 by (simp add: half_def power_eq_if)
  have "bit_length n - 1 = 52 + s" using False by (simp add: s_def)
  with bit_length_bounds [OF npos] have "(2::int) ^ (52 + s) \<le> n" by simp
  then have big: "2 ^ 53 * half \<le> n"
    using two_half by (simp add: power_add)
  have r53: "round53 n = (if half < r \<or> (r = half \<and> odd q) then q + 1 else q) * 2 ^ s"
    using False by (simp add: round53_def Let_def s_def q_def r_def half_def)
  have low: "n - half \<le> round53 n"
  proof (cases "half < r \<or> (r = half \<and> odd q)")
    case True
    then have "round53 n = q * 2 ^ s + 2 ^ s"
      using r53 by (simp add: algebra_simps)
    moreover have "0 \<le> half" by (simp add: half_def)
    ultimately show ?thesis using n_eq r_bounds by linarith
  next
    case False
    then have "round53 n = q * 2 ^ s" "r \<le> half" using r53 by auto
    then show ?thesis using n_eq by linarith
  qed
  have "(2 ^ 53 - 1) * n \<le> 2 ^ 53 * n - 2 ^ 53 * half"
    using big by (simp add: algebra_simps)
  also have "\<dots> = 2 ^ 53 * (n - half)" by (simp add: algebra_simps)
  also have "\<dots> \<le> 2 ^ 53 * round53 n" using low by simp
  finally show ?thesis .
qed

lemma round53_just_below:
  assumes t: "0 < t" "t < 2 ^ (s - 1)" and s: "1 \<le> s" "s \<le> 53"
    and l: "bit_length (k * 2 ^ 53 - t) = 53 + s"
  shows "round53 (k * 2 ^ 53 - t) = k * 2 ^ 53"
proof -
  define P where "P = k * 2 ^ 53 - t"
  define E :: int where "E = 2 ^ (53 - s)"
  define half :: int where "half = 2 ^ (s - 1)"
  have two_half: "(2::int) ^ s = 2 * half"
    using s(1) by (simp add: half_def power_eq_if)
  have "(2::int) ^ 53 = 2 ^ ((53 - s) + s)" using s(2) by simp
  then have K: "(2::int) ^ 53 = E * 2 ^ s" unfolding E_def power_add .
  have P_eq: "P = 2 ^ s * (k * E - 1) + (2 ^ s - t)"
    unfolding P_def K by (simp add: algebra_simps)
  have r: "0 \<le> 2 ^ s - t" "2 ^ s - t < 2 ^ s"
    using t two_half by (simp_all add: half_def)
  have q: "P div 2 ^ s = k * E - 1" using P_eq r by (rule int_div_pos_eq)
  have m: "P mod 2 ^ s = 2 ^ s - t" using P_eq r by (rule int_mod_pos_eq)
  have up: "half < 2 ^ s - t" using t(2) two_half by (simp add: half_def)
  have lP: "bit_length P = 53 + s" using l by (simp only: P_def)
  have "round53 P =
          (if half < P mod 2 ^ s \<or> (P mod 2 ^ s = half \<and> odd (P div 2 ^ s))
           then P div 2 ^ s + 1 else P div 2 ^ s) * 2 ^ s"
    using s(1) by (simp add: round53_def Let_def lP half_def)
  also have "\<dots> = (k * E - 1 + 1) * 2 ^ s"
    using up by (simp only: q m if_True simp_thms)
  also have "\<dots> = k * 2 ^ 53" by (simp only: K) simp
  finally show ?thesis by (simp only: P_def)
qed

lemma int_of_product_small:
  assumes "0 \<le> n" "n < 2 ^ 53"
  shows "int_of_product n m = Inr (round53 (n * m) div 2 ^ 53)"
proof (cases "n = 0")
  case True
  then show ?thesis
    using float_of_int_exact [of 0] by (simp add: int_of_product_def round53_0)
next
  case False
  with assms(1) have "0 < n" by simp
  with float_of_int_exact [OF assms] show ?thesis by (simp add: int_of_product_def)
qed

lemma round53_ge_multiple:
  assumes "c * 2 ^ 53 \<le> P" "0 \<le> P" "P < 2 ^ 106"
  shows "c * 2 ^ 53 \<le> round53 P"
proof (cases "bit_length P \<le> 53")
  case True
  with assms(1) show ?thesis by (simp add: round53_def)
next
  case False
  define s where "s = bit_length P - 53"
  define E :: int where "E = 2 ^ (53 - s)"
  from bit_length_le [OF assms(2,3)] False have s: "1 \<le> s" "s \<le> 53" by (simp_all add: s_def)
  have "(2::int) ^ 53 = 2 ^ ((53 - s) + s)" using s(2) by simp
  then have K: "(2::int) ^ 53 = E * 2 ^ s" unfolding E_def power_add .
  have cK: "c * E * 2 ^ s = c * 2 ^ 53" by (simp only: K mult.assoc)
  have "c * E * 2 ^ s \<le> P" using assms(1) by (simp only: cK)
  then have "(c * E * 2 ^ s) div 2 ^ s \<le> P div 2 ^ s" by (intro zdiv_mono1) simp_all
  then have q: "c * E \<le> P div 2 ^ s" by simp
  have "round53 P = (if 2 ^ (s - 1) < P mod 2 ^ s \<or> (P mod 2 ^ s = 2 ^ (s - 1) \<and> odd (P div 2 ^ s))
                     then P div 2 ^ s + 1 else P div 2 ^ s) * 2 ^ s"
    using False by (simp add: round53_def Let_def s_def)
  then have "P div 2 ^ s * 2 ^ s \<le> round53 P"
    by (simp add: algebra_simps split: if_splits)
  moreover have "c * E * 2 ^ s \<le> P div 2 ^ s * 2 ^ s"
    using q by (intro mult_right_mono) simp_all
  ultimately show ?thesis by (simp only: cK)
qed

text \<open>
  The products against exact arithmetic, for ints up to \<open>2 ^ 49\<close>: \<^verbatim>\<open>int(n * 0.6)\<close> is
  \<open>\<lfloor>3n/5\<rfloor>\<close> and \<^verbatim>\<open>int(n * 0.9)\<close> is \<open>\<lfloor>9n/10\<rfloor>\<close>, while \<^verbatim>\<open>int(n * 0.7)\<close> is \<open>\<lfloor>7n/10\<rfloor>\<close> unless
  \<open>n\<close> is a multiple of 10, where it may be one less: the literal \<^verbatim>\<open>0.7\<close> is a little
  below \<open>7/10\<close>, and \<^verbatim>\<open>90 * 0.7\<close> evaluates to \<^verbatim>\<open>62.99999999999999\<close>.
\<close>

lemma product_0_6_exact:
  assumes "0 \<le> n" "n \<le> 2 ^ 50"
  shows "int_of_product n lit_0_6 = Inr (3 * n div 5)"
proof (cases "n = 0")
  case True
  then show ?thesis
    using float_of_int_exact [of 0] by (simp add: int_of_product_def)
next
  case False
  with assms have npos: "0 < n" and nle: "n \<le> 1125899906842624" by simp_all
  then have "n < 2 ^ 53" by simp
  with npos have conv: "float_of_int n = Inr n" by (intro float_of_int_exact) simp_all
  define P where "P = n * lit_0_6"
  define R where "R = round53 P"
  define k where "k = 3 * n div 5"
  define j where "j = 3 * n mod 5"
  have P5: "5 * P = 27021597764222975 * n" by (simp add: P_def lit_0_6_def)
  have P0: "0 \<le> P" using npos by (simp add: P_def lit_0_6_def)
  have kj: "3 * n = 5 * k + j" "0 \<le> j" "j < 5" by (simp_all add: k_def j_def)
  from conv npos have res: "int_of_product n lit_0_6 = Inr (R div 2 ^ 53)"
    by (simp add: int_of_product_def R_def P_def)
  have "R div 2 ^ 53 = k"
  proof (cases "j = 0")
    case True
    with kj(1) have "n mod 5 = 0" by presburger
    then obtain t where t: "n = 5 * t" by (auto simp: mod_eq_0_iff_dvd)
    with kj(1) True have k3: "k = 3 * t" by simp
    from t npos have tpos: "0 < t" by simp
    have P_eq: "P = k * 2 ^ 53 - t" using P5 t k3 by simp
    have "(2::int) ^ 53 \<le> P" using P_eq k3 tpos by simp
    then have l1: "53 < bit_length P" by (rule bit_length_gt)
    have "P < 2 ^ 106" using P5 nle by simp
    with P0 have l2: "bit_length P \<le> 106" by (rule bit_length_le)
    define s where "s = bit_length P - 53"
    have s: "1 \<le> s" "s \<le> 53" "bit_length P = 53 + s" using l1 l2 by (simp_all add: s_def)
    define H :: int where "H = 2 ^ (s - 1)"
    have "(2::int) ^ (53 + s) = 2 ^ 53 * (2 * H)"
      using s(1) by (simp add: H_def power_add power_eq_if)
    moreover have "P < 2 ^ bit_length P"
      using bit_length_bounds [of P] \<open>2 ^ 53 \<le> P\<close> by simp
    ultimately have "P < 18014398509481984 * H" using s(3) by simp
    moreover have "0 \<le> H" by (simp add: H_def)
    ultimately have "t < H" using P5 t by linarith
    then have "round53 (k * 2 ^ 53 - t) = k * 2 ^ 53"
      using tpos s P_eq by (intro round53_just_below [of t s k]) (simp_all add: H_def)
    then have "R = k * 2 ^ 53" by (simp add: R_def P_eq)
    then show ?thesis by simp
  next
    case False
    with kj have j1: "1 \<le> j" "j \<le> 4" by simp_all
    have lo: "9007199254740991 * P \<le> 9007199254740992 * R"
      using round53_lower [OF P0] by (simp add: R_def)
    have hi: "9007199254740992 * R \<le> 9007199254740993 * P"
      using round53_bounds [OF P0] by (simp add: R_def)
    have a: "9007199254740992 * k \<le> R" using lo P5 kj(1) j1 npos nle by linarith
    have b: "R < 9007199254740992 * k + 9007199254740992" using hi P5 kj(1) j1 npos nle by linarith
    have "R = 9007199254740992 * k + (R - 9007199254740992 * k)" by simp
    moreover have "0 \<le> R - 9007199254740992 * k" using a by simp
    moreover have "R - 9007199254740992 * k < 9007199254740992" using b by simp
    ultimately have "R div 9007199254740992 = k" by (rule int_div_pos_eq)
    then show ?thesis by simp
  qed
  with res show ?thesis by (simp add: k_def)
qed

lemma product_0_9_exact:
  assumes "0 \<le> h" "h \<le> 2 ^ 49"
  shows "int_of_product h lit_0_9 = Inr (9 * h div 10)"
proof -
  from assms have h0: "0 \<le> h" and hle: "h \<le> 562949953421312" by simp_all
  then have "h < 2 ^ 53" by simp
  define P where "P = h * lit_0_9"
  define R where "R = round53 P"
  define k where "k = 9 * h div 10"
  define j where "j = 9 * h mod 10"
  have P10: "10 * P = 81064793292668930 * h" by (simp add: P_def lit_0_9_def)
  have P0: "0 \<le> P" using h0 by (simp add: P_def lit_0_9_def)
  have kj: "9 * h = 10 * k + j" "0 \<le> j" "j < 10" by (simp_all add: k_def j_def)
  have res: "int_of_product h lit_0_9 = Inr (R div 2 ^ 53)"
    using int_of_product_small [OF h0 \<open>h < 2 ^ 53\<close>] by (simp add: R_def P_def)
  have "k * 9007199254740992 \<le> P" using P10 kj h0 by linarith
  moreover have "P < 2 ^ 106" using P10 hle by simp
  ultimately have a: "9007199254740992 * k \<le> R"
    using round53_ge_multiple [of k P] P0 by (simp add: R_def mult.commute)
  have hi: "9007199254740992 * R \<le> 9007199254740993 * P"
    using round53_bounds [OF P0] by (simp add: R_def)
  have b: "R < 9007199254740992 * k + 9007199254740992" using hi P10 kj h0 hle by linarith
  have "R = 9007199254740992 * k + (R - 9007199254740992 * k)" by simp
  moreover have "0 \<le> R - 9007199254740992 * k" using a by simp
  moreover have "R - 9007199254740992 * k < 9007199254740992" using b by simp
  ultimately have "R div 9007199254740992 = k" by (rule int_div_pos_eq)
  with res show ?thesis by (simp add: k_def)
qed

lemma product_0_7_near:
  assumes "0 \<le> h" "h \<le> 2 ^ 49"
  shows "\<exists>r. int_of_product h lit_0_7 = Inr r \<and> 7 * h div 10 - 1 \<le> r \<and> r \<le> 7 * h div 10 \<and>
           (h mod 10 \<noteq> 0 \<longrightarrow> r = 7 * h div 10)"
proof -
  from assms have h0: "0 \<le> h" and hle: "h \<le> 562949953421312" by simp_all
  then have "h < 2 ^ 53" by simp
  define P where "P = h * lit_0_7"
  define R where "R = round53 P"
  define k where "k = 7 * h div 10"
  define j where "j = 7 * h mod 10"
  have P10: "10 * P = 63050394783186940 * h" by (simp add: P_def lit_0_7_def)
  have P0: "0 \<le> P" using h0 by (simp add: P_def lit_0_7_def)
  have kj: "7 * h = 10 * k + j" "0 \<le> j" "j < 10" by (simp_all add: k_def j_def)
  have res: "int_of_product h lit_0_7 = Inr (R div 2 ^ 53)"
    using int_of_product_small [OF h0 \<open>h < 2 ^ 53\<close>] by (simp add: R_def P_def)
  have lo: "9007199254740991 * P \<le> 9007199254740992 * R"
    using round53_lower [OF P0] by (simp add: R_def)
  have hi: "9007199254740992 * R \<le> 9007199254740993 * P"
    using round53_bounds [OF P0] by (simp add: R_def)
  have a: "9007199254740992 * k - 9007199254740992 \<le> R" using lo P10 kj h0 hle by linarith
  have b: "R < 9007199254740992 * k + 9007199254740992" using hi P10 kj h0 hle by linarith
  have a': "9007199254740992 * k \<le> R" if "1 \<le> j" using that lo P10 kj h0 hle by linarith
  have exact: "R div 9007199254740992 = k" if "9007199254740992 * k \<le> R"
  proof -
    have "R = 9007199254740992 * k + (R - 9007199254740992 * k)" by simp
    moreover have "0 \<le> R - 9007199254740992 * k" using that by simp
    moreover have "R - 9007199254740992 * k < 9007199254740992" using b by simp
    ultimately show ?thesis by (rule int_div_pos_eq)
  qed
  have below: "R div 9007199254740992 = k - 1" if "R < 9007199254740992 * k"
  proof -
    have "R = 9007199254740992 * (k - 1) + (R - 9007199254740992 * (k - 1))" by simp
    moreover have "0 \<le> R - 9007199254740992 * (k - 1)" using a by (simp add: algebra_simps)
    moreover have "R - 9007199254740992 * (k - 1) < 9007199254740992" using that by simp
    ultimately show ?thesis by (rule int_div_pos_eq)
  qed
  have near: "k - 1 \<le> R div 9007199254740992 \<and> R div 9007199254740992 \<le> k"
    using exact below by (cases "9007199254740992 * k \<le> R") simp_all
  have "R div 9007199254740992 = k" if "h mod 10 \<noteq> 0"
  proof -
    from that kj have "1 \<le> j" by presburger
    then show ?thesis by (intro exact a')
  qed
  with near res show ?thesis by (simp add: k_def)
qed

text \<open>The products at the four sizes of \<^verbatim>\<open>main\<close>, and those at size 150.\<close>

lemma products_16:
  "int_of_product 16 lit_0_6 = Inr 9" "int_of_product 9 lit_0_7 = Inr 6"
  "int_of_product 9 lit_0_9 = Inr 8"
  by code_simp+

lemma products_32:
  "int_of_product 32 lit_0_6 = Inr 19" "int_of_product 19 lit_0_7 = Inr 13"
  "int_of_product 19 lit_0_9 = Inr 17"
  by code_simp+

lemma products_48:
  "int_of_product 48 lit_0_6 = Inr 28" "int_of_product 28 lit_0_7 = Inr 19"
  "int_of_product 28 lit_0_9 = Inr 25"
  by code_simp+

lemma products_128:
  "int_of_product 128 lit_0_6 = Inr 76" "int_of_product 76 lit_0_7 = Inr 53"
  "int_of_product 76 lit_0_9 = Inr 68"
  by code_simp+

lemma products_150:
  "int_of_product 150 lit_0_6 = Inr 90" "int_of_product 90 lit_0_7 = Inr 62"
  "int_of_product 90 lit_0_9 = Inr 81"
  by code_simp+

lemma str_sizes:
  "str_int 16 = ''16''" "str_int 32 = ''32''" "str_int 48 = ''48''" "str_int 128 = ''128''"
  by code_simp+

lemma representable_sizes:
  "representable 16" "representable 32" "representable 48" "representable 128"
  by code_simp+

section \<open>What a call of \<^verbatim>\<open>create_icon\<close> does\<close>

text \<open>
  A size that converts to a float makes all three products succeed, each between zero
  and its int operand. A call whose products succeed returns after drawing the plate,
  the bookmark and, from size 32, the badge; the canvas and the plate are there in
  every case.
\<close>

lemma int_of_product_defined: "representable n \<Longrightarrow> \<exists>h. int_of_product n m = Inr h"
  by (auto simp: representable_def int_of_product_def float_of_int_def Let_def split: if_splits)

lemma representable_le:
  assumes "0 \<le> h" "0 \<le> n" "round53 h \<le> round53 n" "representable n"
  shows "representable h"
  using assms by (auto simp: representable_def float_of_int_def Let_def split: if_splits)

lemma products_exist:
  assumes s: "0 \<le> size'" and rep: "representable size'"
  shows "\<exists>h h70 h90.
           int_of_product size' lit_0_6 = Inr h \<and> int_of_product h lit_0_7 = Inr h70 \<and>
           int_of_product h lit_0_9 = Inr h90 \<and>
           0 \<le> h \<and> h \<le> size' \<and> 0 \<le> h70 \<and> h70 \<le> h \<and> 0 \<le> h90 \<and> h90 \<le> h"
proof -
  from int_of_product_defined [OF rep] obtain h where h: "int_of_product size' lit_0_6 = Inr h"
    by blast
  from int_of_product_bounds [OF s literal_bounds(1,2) h]
  have hb: "0 \<le> h" "h \<le> size'" "round53 h \<le> round53 size'" by simp_all
  from representable_le [OF hb(1) s hb(3) rep] have reph: "representable h" .
  from int_of_product_defined [OF reph] obtain h70 where h70: "int_of_product h lit_0_7 = Inr h70"
    by blast
  from int_of_product_defined [OF reph] obtain h90 where h90: "int_of_product h lit_0_9 = Inr h90"
    by blast
  from int_of_product_bounds [OF hb(1) literal_bounds(3,4) h70]
  have b70: "0 \<le> h70" "h70 \<le> h" by simp_all
  from int_of_product_bounds [OF hb(1) literal_bounds(5,6) h90]
  have b90: "0 \<le> h90" "h90 \<le> h" by simp_all
  from h h70 h90 hb b70 b90 show ?thesis by blast
qed

lemma create_icon_returns:
  assumes "int_of_product size' lit_0_6 = Inr h" "int_of_product h lit_0_7 = Inr h70"
    "int_of_product h lit_0_9 = Inr h90"
  shows "ops (img (create_icon size' filename)) =
           [RoundedRectangle [size' div 8, size' div 8, size' - size' div 8, size' - size' div 8]
              (size' div 6) (37, 99, 235),
            Polygon [(size' - size' div 2) div 2, (size' - h) div 2,
                     (size' - size' div 2) div 2 + size' div 2, (size' - h) div 2,
                     (size' - size' div 2) div 2 + size' div 2, (size' - h) div 2 + h70,
                     (size' - size' div 2) div 2 + size' div 2 div 2, (size' - h) div 2 + h90,
                     (size' - size' div 2) div 2, (size' - h) div 2 + h70]
              (255, 255, 255)] @
           (if 32 \<le> size' then
              [Ellipse [size' - size' div 8 - 2 - 2, 2 - 2,
                        size' - size' div 8 - 2 + size' div 8 + 2, 2 + size' div 8 + 2]
                 (52, 211, 153),
               Rectangle [size' - size' div 8 - 2 + size' div 8 div 2 - max 1 (size' div 8 div 4) div 2, 2,
                          size' - size' div 8 - 2 + size' div 8 div 2 + max 1 (size' div 8 div 4) div 2,
                          2 + size' div 8]
                 (255, 255, 255),
               Rectangle [size' - size' div 8 - 2,
                          2 + size' div 8 div 2 - max 1 (size' div 8 div 4) div 2,
                          size' - size' div 8 - 2 + size' div 8,
                          2 + size' div 8 div 2 + max 1 (size' div 8 div 4) div 2]
                 (255, 255, 255)]
            else [])"
    and "effects (create_icon size' filename) =
           [Save (img (create_icon size' filename)) filename ''PNG'',
            Print (''Created '' @ filename @ '' ('' @ str_int size' @ ''x'' @ str_int size' @ '')'')]"
    and "raised (create_icon size' filename) = None"
  using assms
  by (simp_all add: create_icon_def draw_plus_def draw_def Image_new_def bookmark_points_def
      bg_color_def text_color_def badge_green_def Let_def)

lemma create_icon_canvas:
  "mode (img (create_icon size' filename)) = ''RGBA''"
  "dims (img (create_icon size' filename)) = (size', size')"
  "color (img (create_icon size' filename)) = (0, 0, 0, 0)"
  by (simp_all add: create_icon_def draw_plus_def draw_def Image_new_def Let_def split: sum.splits)

lemma create_icon_plate:
  "\<exists>rest. ops (img (create_icon size' filename)) =
     RoundedRectangle [size' div 8, size' div 8, size' - size' div 8, size' - size' div 8]
       (size' div 6) (37, 99, 235) # rest"
  by (simp add: create_icon_def draw_plus_def draw_def Image_new_def Let_def bg_color_def split: sum.splits)

lemma create_icon_raises:
  "int_of_product size' lit_0_6 = Inl e \<Longrightarrow>
     create_icon size' filename =
       \<lparr>img = \<lparr>mode = ''RGBA'', dims = (size', size'), color = (0, 0, 0, 0),
               ops = [RoundedRectangle [size' div 8, size' div 8, size' - size' div 8, size' - size' div 8]
                        (size' div 6) (37, 99, 235)]\<rparr>,
        effects = [], raised = Some e\<rparr>"
  by (simp add: create_icon_def draw_def Image_new_def Let_def bg_color_def)

lemma create_icon_cases:
  obtains (raises)
    "ops (img (create_icon size' filename)) =
       [RoundedRectangle [size' div 8, size' div 8, size' - size' div 8, size' - size' div 8]
          (size' div 6) (37, 99, 235)]"
  | (returns) h h70 h90 where
    "int_of_product size' lit_0_6 = Inr h" "int_of_product h lit_0_7 = Inr h70"
    "int_of_product h lit_0_9 = Inr h90"
proof (cases "int_of_product size' lit_0_6")
  case (Inl e)
  then show ?thesis by (intro raises) (simp add: create_icon_raises)
next
  case h: (Inr h)
  show ?thesis
  proof (cases "int_of_product h lit_0_7")
    case (Inl e)
    with h show ?thesis
      by (intro raises) (simp add: create_icon_def draw_def Image_new_def Let_def bg_color_def)
  next
    case h70: (Inr h70)
    show ?thesis
    proof (cases "int_of_product h lit_0_9")
      case (Inl e)
      with h h70 show ?thesis
        by (intro raises) (simp add: create_icon_def draw_def Image_new_def Let_def bg_color_def)
    next
      case (Inr h90)
      with h h70 show ?thesis by (intro returns)
    qed
  qed
qed

lemma create_icon_raised:
  assumes "0 \<le> size'"
  shows "raised (create_icon size' filename) = (if representable size' then None else Some OverflowError)"
proof (cases "representable size'")
  case True
  from products_exist [OF assms True] obtain h h70 h90 where
    "int_of_product size' lit_0_6 = Inr h" "int_of_product h lit_0_7 = Inr h70"
    "int_of_product h lit_0_9 = Inr h90" by blast
  from create_icon_returns(3) [OF this] True show ?thesis by simp
next
  case False
  then have "int_of_product size' lit_0_6 = Inl OverflowError"
    by (simp add: representable_def int_of_product_def)
  with False show ?thesis by (simp add: create_icon_raises)
qed

lemma effects_create_icon:
  "effects (create_icon k f) =
     (if raised (create_icon k f) = None
      then [Save (img (create_icon k f)) f ''PNG'',
            Print (''Created '' @ f @ '' ('' @ str_int k @ ''x'' @ str_int k @ '')'')]
      else [])"
  by (simp add: create_icon_def Let_def split: sum.splits)


section \<open>What \<^verbatim>\<open>main\<close> does\<close>

text \<open>
  For a script file \<open>root/dir/file\<close> the two \<^verbatim>\<open>dirname\<close> calls give \<open>root\<close> (or \<open>/\<close> when
  \<open>root\<close> is empty), and the joined icons directory is \<open>root/extension/icons\<close>. None of
  the four calls of \<^verbatim>\<open>create_icon\<close> raises, so the loop runs to its end.
\<close>

lemma dropWhile_name:
  "slash \<notin> set f \<Longrightarrow> dropWhile (\<lambda>c. c \<noteq> slash) (rev f @ slash # rest) = slash # rest"
  by (auto simp: dropWhile_append3 dropWhile_eq_Nil_conv)

lemma rstrip_slash_name:
  assumes "s \<noteq> []" "slash \<notin> set s"
  shows "rstrip_slash (d @ slash # s @ [slash]) = d @ slash # s"
proof -
  from assms obtain ys y where "s = ys @ [y]" "y \<noteq> slash"
    by (cases s rule: rev_cases) auto
  then show ?thesis by (simp add: rstrip_slash_def)
qed

lemma not_all_slashes: "x \<in> set xs \<Longrightarrow> x \<noteq> slash \<Longrightarrow> xs \<noteq> replicate n slash"
  by auto

lemma dirname_file:
  assumes "slash \<notin> set f" "s \<noteq> []" "slash \<notin> set s"
  shows "dirname (d @ slash # s @ slash # f) = d @ slash # s"
proof -
  have head: "rev (dropWhile (\<lambda>c. c \<noteq> slash) (rev (d @ slash # s @ slash # f))) = d @ slash # s @ [slash]"
    using dropWhile_name [OF assms(1), of "rev s @ slash # rev d"] by simp
  from assms(2,3) obtain x where "x \<in> set s" "x \<noteq> slash" by (cases s) auto
  then have "d @ slash # s @ [slash] \<noteq> replicate (length (d @ slash # s @ [slash])) slash"
    by (intro not_all_slashes [of x]) auto
  then show ?thesis
    unfolding dirname_def head Let_def using rstrip_slash_name [OF assms(2,3)] by simp
qed

lemma dirname_dir:
  assumes "s \<noteq> []" "slash \<notin> set s" "d = [] \<or> last d \<noteq> slash"
  shows "dirname (d @ slash # s) = (if d = [] then [slash] else d)"
proof -
  have head: "rev (dropWhile (\<lambda>c. c \<noteq> slash) (rev (d @ slash # s))) = d @ [slash]"
    using dropWhile_name [OF assms(2), of "rev d"] by simp
  show ?thesis
  proof (cases "d = []")
    case True
    then show ?thesis unfolding dirname_def head Let_def by simp
  next
    case False
    with assms(3) have l: "last d \<noteq> slash" by simp
    from False have "last d \<in> set d" by simp
    with l have ne: "d @ [slash] \<noteq> replicate (length (d @ [slash])) slash"
      by (intro not_all_slashes [of "last d"]) auto
    from False l obtain ys y where "d = ys @ [y]" "y \<noteq> slash"
      by (cases d rule: rev_cases) auto
    then have "rstrip_slash (d @ [slash]) = d"
      by (simp add: rstrip_slash_def)
    with ne False show ?thesis unfolding dirname_def head Let_def by simp
  qed
qed

lemma icons_dir_resolved:
  assumes "slash \<notin> set file" "dir \<noteq> []" "slash \<notin> set dir" "root = [] \<or> last root \<noteq> slash"
  shows "join (dirname (dirname (root @ ''/'' @ dir @ ''/'' @ file))) [''extension'', ''icons'']
           = root @ ''/extension/icons''"
proof -
  have "root @ ''/'' @ dir @ ''/'' @ file = root @ slash # dir @ slash # file"
    by (simp add: slash_def)
  then have "dirname (dirname (root @ ''/'' @ dir @ ''/'' @ file)) = (if root = [] then [slash] else root)"
    using dirname_file [OF assms(1-3), of root] dirname_dir [OF assms(2-4)] by simp
  with assms(4) show ?thesis
    by (auto simp: join_def join_step_def slash_def)
qed

lemma returns_at_sizes:
  "raised (create_icon 16 filename) = None" "raised (create_icon 32 filename) = None"
  "raised (create_icon 48 filename) = None" "raised (create_icon 128 filename) = None"
  by (rule create_icon_returns(3) [OF products_16] create_icon_returns(3) [OF products_32]
      create_icon_returns(3) [OF products_48] create_icon_returns(3) [OF products_128])+

lemma main_run:
  "main file =
     (let icons_dir = join (dirname (dirname file)) [''extension'', ''icons''] in
      (MakeDirs icons_dir True #
       effects (create_icon 16 (join icons_dir [''icon16.png''])) @
       effects (create_icon 32 (join icons_dir [''icon32.png''])) @
       effects (create_icon 48 (join icons_dir [''icon48.png''])) @
       effects (create_icon 128 (join icons_dir [''icon128.png''])) @
       summary icons_dir, None))"
  by (simp add: main_def Let_def returns_at_sizes str_sizes)

lemma saved_append: "saved (xs @ ys) = saved xs @ saved ys"
  by (induction xs rule: saved.induct) simp_all

lemma saved_summary: "saved (summary d) = []"
  by (simp add: summary_def)

lemma img_create_icon: "img (create_icon size' filename1) = img (create_icon size' filename2)"
  by (simp add: create_icon_def Let_def split: sum.splits)

lemma raised_create_icon: "raised (create_icon size' filename1) = raised (create_icon size' filename2)"
  by (simp add: create_icon_def Let_def split: sum.splits)

lemma saved_create_icon:
  "saved (effects (create_icon size' filename)) =
     (if raised (create_icon size' filename) = None then [img (create_icon size' filename)] else [])"
  by (simp add: create_icon_def Let_def split: sum.splits)

text \<open>
  \<^verbatim>\<open>main\<close> never raises, so the entry point ends normally without entering a handler;
  the line that the \<^verbatim>\<open>except ImportError\<close> branch prints is printed by no run.
\<close>

lemma main_returns: "snd (main f) = None"
  by (simp add: main_run Let_def)

lemma entry_point_normal: "entry_point f = (fst (main f), Normal)"
  using main_returns [of f] by (cases "main f") (simp add: entry_point_def)

lemma hint_never_printed:
  "Print ([CHR 0xE2, CHR 0x9D, CHR 0x8C] @ '' Error: Pillow library not found'')
     \<notin> set (fst (run_script e))"
proof (cases "pillow_installed e")
  case False
  then show ?thesis by (simp add: run_script_def)
next
  case True
  then show ?thesis
    by (simp add: run_script_def entry_point_normal main_run Let_def summary_def
        effects_create_icon)
qed

text \<open>
  A call either raises at one of the float products, with the plate as its only
  drawing call, or all three products have values. The first product overflows at
  size \<open>2 ^ 1024\<close>. The drawing calls at size 150, where \<^verbatim>\<open>int(90 * 0.7)\<close> is 62.
\<close>

lemma create_icon_outcome:
  obtains (raises) e where
    "ops (img (create_icon size' filename)) =
       [RoundedRectangle [size' div 8, size' div 8, size' - size' div 8, size' - size' div 8]
          (size' div 6) (37, 99, 235)]"
    "raised (create_icon size' filename) = Some e"
  | (returns) h h70 h90 where
    "int_of_product size' lit_0_6 = Inr h" "int_of_product h lit_0_7 = Inr h70"
    "int_of_product h lit_0_9 = Inr h90"
proof (cases "int_of_product size' lit_0_6")
  case (Inl e)
  then show ?thesis by (intro raises [of e]) (simp_all add: create_icon_raises)
next
  case h: (Inr h)
  show ?thesis
  proof (cases "int_of_product h lit_0_7")
    case (Inl e)
    with h show ?thesis
      by (intro raises [of e])
        (simp_all add: create_icon_def draw_def Image_new_def Let_def bg_color_def)
  next
    case h70: (Inr h70)
    show ?thesis
    proof (cases "int_of_product h lit_0_9")
      case (Inl e)
      with h h70 show ?thesis
        by (intro raises [of e])
          (simp_all add: create_icon_def draw_def Image_new_def Let_def bg_color_def)
    next
      case (Inr h90)
      with h h70 show ?thesis by (intro returns)
    qed
  qed
qed



lemma icon150_ops:
  "ops (img (create_icon 150 filename)) =
     [RoundedRectangle [18, 18, 132, 132] 25 (37, 99, 235),
      Polygon [37, 30, 112, 30, 112, 92, 74, 111, 37, 92] (255, 255, 255),
      Ellipse [128, 0, 150, 22] (52, 211, 153),
      Rectangle [137, 2, 141, 20] (255, 255, 255),
      Rectangle [130, 9, 148, 13] (255, 255, 255)]"
  using create_icon_returns(1) [OF products_150, of filename] by simp

section \<open>The claims\<close>

text \<open>
  C1. When the drawing library is missing, the run should print the installation hint
  and end normally. It does not: the import of line 7 raises ImportError while the
  module is loaded, before the \<^verbatim>\<open>try\<close> statement of lines 100 to 108 is entered, so the
  run prints nothing and ends with the traceback of the uncaught exception.
\<close>

theorem missing_pillow_is_uncaught:
  "run_script \<lparr>pillow_installed = False, abs_file = ''/repo/scripts/create-icons.py''\<rparr>
     = ([], Traceback ImportError)"
  by (simp add: run_script_def)

text \<open>
  C6. For every size, the first drawing call on the new image is the filled rounded
  rectangle with margin \<open>size div 8\<close> on each side, from \<open>[margin, margin]\<close> to
  \<open>[size - margin, size - margin]\<close>, with corner radius \<open>size div 6\<close> and the fill
  \<open>(37, 99, 235)\<close>.
\<close>

theorem background_plate:
  "\<exists>rest. ops (img (create_icon size' filename)) =
     RoundedRectangle [size' div 8, size' div 8, size' - size' div 8, size' - size' div 8]
       (size' div 6) (37, 99, 235) # rest"
  by (simp add: create_icon_def draw_plus_def draw_def Image_new_def Let_def bg_color_def
      split: sum.splits)

theorem background_plate_witness:
  "\<exists>rest. ops (img (create_icon 128 ''icon128.png'')) =
     RoundedRectangle [16, 16, 112, 112] 21 (37, 99, 235) # rest"
  using background_plate [of 128 "''icon128.png''"] by simp

text \<open>
  C7. For every size, the image is created in mode RGBA with dimensions
  \<open>(size, size)\<close> and the fully transparent colour \<open>(0, 0, 0, 0)\<close>; at each of the sizes
  16, 32, 48 and 128 the call saves that image, as PNG under the given file name, so
  the saved image has dimensions \<open>(size, size)\<close>.
\<close>

theorem canvas_allocation:
  "mode (img (create_icon size' filename)) = ''RGBA'' \<and>
   dims (img (create_icon size' filename)) = (size', size') \<and>
   color (img (create_icon size' filename)) = (0, 0, 0, 0) \<and>
   (size' \<in> {16, 32, 48, 128} \<longrightarrow>
      (\<exists>im. effects (create_icon size' filename) =
              [Save im filename ''PNG'',
               Print (''Created '' @ filename @ '' ('' @ str_int size' @ ''x'' @ str_int size' @ '')'')] \<and>
            mode im = ''RGBA'' \<and> dims im = (size', size') \<and> color im = (0, 0, 0, 0)))"
proof -
  have "\<exists>h h70 h90. int_of_product size' lit_0_6 = Inr h \<and> int_of_product h lit_0_7 = Inr h70 \<and>
          int_of_product h lit_0_9 = Inr h90" if "size' \<in> {16, 32, 48, 128}"
    using that products_16 products_32 products_48 products_128 by auto
  then show ?thesis
    using create_icon_canvas [of size' filename] create_icon_returns(2) [of size' _ _ _ filename]
    by blast
qed

theorem canvas_allocation_witness:
  "dims (img (create_icon 128 ''icon128.png'')) = (128, 128) \<and>
   (\<exists>im. effects (create_icon 128 ''icon128.png'') =
           [Save im ''icon128.png'' ''PNG'', Print ''Created icon128.png (128x128)''] \<and>
         mode im = ''RGBA'' \<and> dims im = (128, 128) \<and> color im = (0, 0, 0, 0))"
  using canvas_allocation [of 128 "''icon128.png''"] by (simp add: str_sizes)

text \<open>
  C5. The sides of the polygon are not always at exactly 70 percent of its height. At size
  150 the height is 90 and the polygon is drawn from \<open>y = 30\<close>; 70 percent of 90 is 63,
  which would put the right and left side at \<open>y = 93\<close>, but \<^verbatim>\<open>int(90 * 0.7)\<close> is 62 (the
  literal \<^verbatim>\<open>0.7\<close> is a little below \<open>7/10\<close>) and the sides are at \<open>y = 92\<close>.
\<close>

theorem bookmark_height_counterexample:
  "ops (img (create_icon 150 ''icon150.png'')) ! 1 =
     Polygon [37, 30, 112, 30, 112, 92, 74, 111, 37, 92] (255, 255, 255) \<and>
   (150 - 3 * 150 div 5) div 2 + 7 * (3 * 150 div 5) div 10 = (93 :: int) \<and>
   xy (ops (img (create_icon 150 ''icon150.png'')) ! 1) ! 5 \<noteq>
     (150 - 3 * 150 div 5) div 2 + 7 * (3 * 150 div 5) div 10"
  by (simp add: icon150_ops)

text \<open>
  C5, as amended. For every positive size, every polygon drawn is the polygon of five
  points, filled white \<open>(255, 255, 255)\<close>: with \<open>width = size div 2\<close>, \<open>h = int(size * 0.6)\<close>,
  \<open>x = (size - width) div 2\<close> and \<open>y = (size - h) div 2\<close> the points are \<open>(x, y)\<close>,
  \<open>(x + width, y)\<close>, \<open>(x + width, y + int(h * 0.7))\<close>, \<open>(x + width div 2, y + int(h * 0.9))\<close> and
  \<open>(x, y + int(h * 0.7))\<close>, the three heights being the truncated binary64 products of the
  script. Up to size \<open>2 ^ 49\<close> the first is \<open>\<lfloor>3 size / 5\<rfloor>\<close>, the 90 percent height is
  \<open>\<lfloor>9h/10\<rfloor>\<close>, and the 70 percent height is \<open>\<lfloor>7h/10\<rfloor>\<close> or, only when \<open>h\<close> is a multiple of 10,
  possibly one less. Whenever the call returns, the polygon is its second drawing call.
\<close>

theorem bookmark_polygon:
  assumes "0 < size'"
  shows "(\<forall>pts f. Polygon pts f \<in> set (ops (img (create_icon size' filename))) \<longrightarrow>
            (\<exists>h h70 h90.
               int_of_product size' lit_0_6 = Inr h \<and> int_of_product h lit_0_7 = Inr h70 \<and>
               int_of_product h lit_0_9 = Inr h90 \<and>
               pts = [(size' - size' div 2) div 2, (size' - h) div 2,
                      (size' - size' div 2) div 2 + size' div 2, (size' - h) div 2,
                      (size' - size' div 2) div 2 + size' div 2, (size' - h) div 2 + h70,
                      (size' - size' div 2) div 2 + size' div 2 div 2, (size' - h) div 2 + h90,
                      (size' - size' div 2) div 2, (size' - h) div 2 + h70] \<and>
               f = (255, 255, 255) \<and>
               (size' \<le> 2 ^ 49 \<longrightarrow>
                  h = 3 * size' div 5 \<and> h90 = 9 * h div 10 \<and>
                  7 * h div 10 - 1 \<le> h70 \<and> h70 \<le> 7 * h div 10 \<and>
                  (h mod 10 \<noteq> 0 \<longrightarrow> h70 = 7 * h div 10)))) \<and>
         (raised (create_icon size' filename) = None \<longrightarrow>
            (\<exists>pts. ops (img (create_icon size' filename)) ! 1 = Polygon pts (255, 255, 255)))"
proof (cases rule: create_icon_outcome [of size' filename])
  case (raises e)
  then show ?thesis by simp
next
  case p: (returns h h70 h90)
  from assms have s: "0 \<le> size'" by simp
  from int_of_product_bounds [OF s literal_bounds(1,2) p(1)]
  have hb: "0 \<le> h" "h \<le> size'" by simp_all
  have ex: "size' \<le> 2 ^ 49 \<longrightarrow>
              h = 3 * size' div 5 \<and> h90 = 9 * h div 10 \<and>
              7 * h div 10 - 1 \<le> h70 \<and> h70 \<le> 7 * h div 10 \<and>
              (h mod 10 \<noteq> 0 \<longrightarrow> h70 = 7 * h div 10)"
  proof
    assume small: "size' \<le> 2 ^ 49"
    from small have "size' \<le> 2 ^ 50" by simp
    from product_0_6_exact [OF s this] p(1) have h: "h = 3 * size' div 5" by simp
    from hb small have hs: "h \<le> 2 ^ 49" by simp
    from product_0_9_exact [OF hb(1) hs] p(3) have h90: "h90 = 9 * h div 10" by simp
    from product_0_7_near [OF hb(1) hs] p(2)
    have "7 * h div 10 - 1 \<le> h70 \<and> h70 \<le> 7 * h div 10 \<and>
          (h mod 10 \<noteq> 0 \<longrightarrow> h70 = 7 * h div 10)"
      by auto
    with h h90 show "h = 3 * size' div 5 \<and> h90 = 9 * h div 10 \<and>
              7 * h div 10 - 1 \<le> h70 \<and> h70 \<le> 7 * h div 10 \<and>
              (h mod 10 \<noteq> 0 \<longrightarrow> h70 = 7 * h div 10)"
      by simp
  qed
  define P where "P = [(size' - size' div 2) div 2, (size' - h) div 2,
                      (size' - size' div 2) div 2 + size' div 2, (size' - h) div 2,
                      (size' - size' div 2) div 2 + size' div 2, (size' - h) div 2 + h70,
                      (size' - size' div 2) div 2 + size' div 2 div 2, (size' - h) div 2 + h90,
                      (size' - size' div 2) div 2, (size' - h) div 2 + h70]"
  have drawn: "pts = P \<and> f = (255, 255, 255)"
    if "Polygon pts f \<in> set (ops (img (create_icon size' filename)))" for pts f
    using that create_icon_returns(1) [OF p, of filename]
    by (auto simp: P_def split: if_splits)
  have second: "ops (img (create_icon size' filename)) ! 1 = Polygon P (255, 255, 255)"
    using create_icon_returns(1) [OF p, of filename] by (simp add: P_def)
  have "\<exists>h h70 h90.
          int_of_product size' lit_0_6 = Inr h \<and> int_of_product h lit_0_7 = Inr h70 \<and>
          int_of_product h lit_0_9 = Inr h90 \<and>
          pts = [(size' - size' div 2) div 2, (size' - h) div 2,
                 (size' - size' div 2) div 2 + size' div 2, (size' - h) div 2,
                 (size' - size' div 2) div 2 + size' div 2, (size' - h) div 2 + h70,
                 (size' - size' div 2) div 2 + size' div 2 div 2, (size' - h) div 2 + h90,
                 (size' - size' div 2) div 2, (size' - h) div 2 + h70] \<and>
          f = (255, 255, 255) \<and>
          (size' \<le> 2 ^ 49 \<longrightarrow>
             h = 3 * size' div 5 \<and> h90 = 9 * h div 10 \<and>
             7 * h div 10 - 1 \<le> h70 \<and> h70 \<le> 7 * h div 10 \<and>
             (h mod 10 \<noteq> 0 \<longrightarrow> h70 = 7 * h div 10))"
    if m: "Polygon pts f \<in> set (ops (img (create_icon size' filename)))" for pts f
  proof -
    from drawn [OF m] have "pts = P" "f = (255, 255, 255)" by simp_all
    then show ?thesis
      unfolding P_def
      by (intro exI [of _ h] exI [of _ h70] exI [of _ h90] conjI p ex) simp_all
  qed
  moreover have "\<exists>pts. ops (img (create_icon size' filename)) ! 1 = Polygon pts (255, 255, 255)"
    using second by blast
  ultimately show ?thesis by blast
qed

theorem bookmark_polygon_witness:
  "Polygon [32, 26, 96, 26, 96, 79, 64, 94, 32, 79] (255, 255, 255)
     \<in> set (ops (img (create_icon 128 ''icon128.png''))) \<and>
   raised (create_icon 128 ''icon128.png'') = None \<and>
   (\<exists>pts. ops (img (create_icon 128 ''icon128.png'')) ! 1 = Polygon pts (255, 255, 255)) \<and>
   int_of_product 128 lit_0_6 = Inr 76 \<and> int_of_product 76 lit_0_7 = Inr 53 \<and>
   int_of_product 76 lit_0_9 = Inr 68 \<and>
   (76 :: int) = 3 * 128 div 5 \<and> (68 :: int) = 9 * 76 div 10 \<and> (53 :: int) = 7 * 76 div 10"
  using bookmark_polygon [of 128 "''icon128.png''"]
    create_icon_returns(1,3) [OF products_128, of "''icon128.png''"]
  by (simp add: products_128)

text \<open>
  C9. For every size from 32, every ellipse drawn is the badge circle with the bounding
  box \<open>[size - size div 8 - 4, 0, size, size div 8 + 4]\<close>: its top is 0 and its right edge
  is \<open>size\<close>. Whenever the call returns, it is the one ellipse drawn.
\<close>

theorem badge_circle_box:
  assumes "32 \<le> size'"
  shows "(\<forall>b f. Ellipse b f \<in> set (ops (img (create_icon size' filename))) \<longrightarrow>
            b = [size' - size' div 8 - 4, 0, size', size' div 8 + 4] \<and> f = (52, 211, 153)) \<and>
         (raised (create_icon size' filename) = None \<longrightarrow>
            filter (\<lambda>c. case c of Ellipse b f \<Rightarrow> True | _ \<Rightarrow> False)
              (ops (img (create_icon size' filename))) =
            [Ellipse [size' - size' div 8 - 4, 0, size', size' div 8 + 4] (52, 211, 153)])"
proof (cases rule: create_icon_outcome [of size' filename])
  case (raises e)
  then show ?thesis by simp
next
  case (returns h h70 h90)
  from create_icon_returns(1) [OF returns, of filename] assms show ?thesis by auto
qed

theorem badge_circle_box_witness:
  "Ellipse [108, 0, 128, 20] (52, 211, 153) \<in> set (ops (img (create_icon 128 ''icon128.png''))) \<and>
   filter (\<lambda>c. case c of Ellipse b f \<Rightarrow> True | _ \<Rightarrow> False)
     (ops (img (create_icon 128 ''icon128.png''))) =
   [Ellipse [108, 0, 128, 20] (52, 211, 153)]"
  using badge_circle_box [of 128 "''icon128.png''"]
    create_icon_returns(1,3) [OF products_128, of "''icon128.png''"]
  by simp







text \<open>
  C10. For every positive size, every polygon drawn has five points, each with both
  coordinates between 0 and \<open>size\<close>; in particular \<open>(size - size div 2) div 2\<close> is not
  negative, \<open>(size - size div 2) div 2 + size div 2\<close> is at most \<open>size\<close>, and
  \<open>(size - int(size * 0.6)) div 2 + int(int(size * 0.6) * 0.9)\<close> is at most \<open>size\<close>.
\<close>

theorem bookmark_inside_canvas:
  assumes "0 < size'"
  shows "(\<forall>pts f. Polygon pts f \<in> set (ops (img (create_icon size' filename))) \<longrightarrow>
            length pts = 10 \<and> (\<forall>v \<in> set pts. 0 \<le> v \<and> v \<le> size')) \<and>
         0 \<le> (size' - size' div 2) div 2 \<and>
         (size' - size' div 2) div 2 + size' div 2 \<le> size' \<and>
         (\<forall>h h90. int_of_product size' lit_0_6 = Inr h \<and> int_of_product h lit_0_9 = Inr h90 \<longrightarrow>
            (size' - h) div 2 + h90 \<le> size')"
proof (intro conjI allI impI)
  fix h h90
  assume a: "int_of_product size' lit_0_6 = Inr h \<and> int_of_product h lit_0_9 = Inr h90"
  from assms have s: "0 \<le> size'" by simp
  from int_of_product_bounds [OF s literal_bounds(1,2)] a have hb: "0 \<le> h" "h \<le> size'" by simp_all
  from int_of_product_bounds [OF hb(1) literal_bounds(5,6)] a have "h90 \<le> h" by simp
  with hb show "(size' - h) div 2 + h90 \<le> size'" by linarith
next
  show "0 \<le> (size' - size' div 2) div 2" using assms by linarith
next
  show "(size' - size' div 2) div 2 + size' div 2 \<le> size'" using assms by linarith
next
  fix pts f
  assume m: "Polygon pts f \<in> set (ops (img (create_icon size' filename)))"
  from assms have s: "0 \<le> size'" by simp
  have "length pts = 10 \<and> (\<forall>v \<in> set pts. 0 \<le> v \<and> v \<le> size')"
  proof (cases rule: create_icon_cases [of size' filename])
    case raises
    with m show ?thesis by simp
  next
    case (returns h h70 h90)
    from int_of_product_bounds [OF s literal_bounds(1,2) returns(1)]
    have hb: "0 \<le> h" "h \<le> size'" by simp_all
    from int_of_product_bounds [OF hb(1) literal_bounds(3,4) returns(2)]
    have b70: "0 \<le> h70" "h70 \<le> h" by simp_all
    from int_of_product_bounds [OF hb(1) literal_bounds(5,6) returns(3)]
    have b90: "0 \<le> h90" "h90 \<le> h" by simp_all
    define X where "X = (size' - size' div 2) div 2"
    define W where "W = size' div 2"
    define Y where "Y = (size' - h) div 2"
    from m create_icon_returns(1) [OF returns, of filename]
    have pts: "pts = [X, Y, X + W, Y, X + W, Y + h70, X + W div 2, Y + h90, X, Y + h70]"
      unfolding X_def W_def Y_def by (auto split: if_splits)
    have x: "0 \<le> X" "0 \<le> W" "X + W \<le> size'"
      unfolding X_def W_def using assms by linarith+
    have y: "0 \<le> Y" "Y + h \<le> size'"
      unfolding Y_def using hb by linarith+
    have w: "0 \<le> W div 2" "W div 2 \<le> W"
      using x(2) by linarith+
    have "\<forall>v \<in> set pts. 0 \<le> v \<and> v \<le> size'"
      unfolding pts using x y w b70 b90 hb by auto
    then show ?thesis by (simp add: pts)
  qed
  then show "length pts = 10" and "\<forall>v \<in> set pts. 0 \<le> v \<and> v \<le> size'" by simp_all
qed

theorem bookmark_inside_canvas_witness:
  "Polygon [32, 26, 96, 26, 96, 79, 64, 94, 32, 79] (255, 255, 255)
     \<in> set (ops (img (create_icon 128 ''icon128.png''))) \<and>
   list_all (\<lambda>v. 0 \<le> v \<and> v \<le> (128 :: int)) [32, 26, 96, 26, 96, 79, 64, 94, 32, 79] \<and>
   (128 - 76) div 2 + 68 \<le> (128 :: int)"
  using bookmark_inside_canvas [of 128 "''icon128.png''"]
    create_icon_returns(1) [OF products_128, of "''icon128.png''"]
  by simp

text \<open>
  C3. For a script file at \<open>root/dir/file\<close>, \<^verbatim>\<open>main\<close> first calls \<^verbatim>\<open>os.makedirs\<close> on
  \<open>root/extension/icons\<close>, the directory \<open>extension/icons\<close> under the parent of the
  directory of the script, with \<^verbatim>\<open>exist_ok=True\<close>; it then calls \<^verbatim>\<open>create_icon\<close> for the
  sizes 16, 32, 48, 128 in this order, each with the file name
  \<open>root/extension/icons/icon<size>.png\<close>, and prints the summary.
\<close>

theorem driver_run:
  assumes "CHR ''/'' \<notin> set file" and "dir \<noteq> []" and "CHR ''/'' \<notin> set dir"
    and "root = [] \<or> last root \<noteq> CHR ''/''"
  shows "main (root @ ''/'' @ dir @ ''/'' @ file) =
           (MakeDirs (root @ ''/extension/icons'') True #
            effects (create_icon 16 (root @ ''/extension/icons/icon16.png'')) @
            effects (create_icon 32 (root @ ''/extension/icons/icon32.png'')) @
            effects (create_icon 48 (root @ ''/extension/icons/icon48.png'')) @
            effects (create_icon 128 (root @ ''/extension/icons/icon128.png'')) @
            summary (root @ ''/extension/icons''), None)"
proof -
  from assms have "join (dirname (dirname (root @ ''/'' @ dir @ ''/'' @ file))) [''extension'', ''icons'']
                     = root @ ''/extension/icons''"
    by (intro icons_dir_resolved) (simp_all add: slash_def)
  then show ?thesis
    by (simp add: main_run Let_def join_def join_step_def slash_def)
qed

theorem driver_run_witness:
  "main ''/home/u/bookmarkable/scripts/create-icons.py'' =
     (MakeDirs ''/home/u/bookmarkable/extension/icons'' True #
      effects (create_icon 16 ''/home/u/bookmarkable/extension/icons/icon16.png'') @
      effects (create_icon 32 ''/home/u/bookmarkable/extension/icons/icon32.png'') @
      effects (create_icon 48 ''/home/u/bookmarkable/extension/icons/icon48.png'') @
      effects (create_icon 128 ''/home/u/bookmarkable/extension/icons/icon128.png'') @
      summary ''/home/u/bookmarkable/extension/icons'', None) \<and>
   effects (create_icon 16 ''/home/u/bookmarkable/extension/icons/icon16.png'') =
     [Save (img (create_icon 16 ''/home/u/bookmarkable/extension/icons/icon16.png''))
        ''/home/u/bookmarkable/extension/icons/icon16.png'' ''PNG'',
      Print ''Created /home/u/bookmarkable/extension/icons/icon16.png (16x16)'']"
  using driver_run [of "''create-icons.py''" "''scripts''" "''/home/u/bookmarkable''"]
    create_icon_returns(2) [OF products_16, of "''/home/u/bookmarkable/extension/icons/icon16.png''"]
  by (simp add: str_sizes)

text \<open>
  C8. The image that \<^verbatim>\<open>create_icon\<close> draws and saves depends on the size only, not on the
  file name; two runs of \<^verbatim>\<open>main\<close>, from whatever script locations, write the same four
  images in the same order.
\<close>

theorem icon_content_of_size_only:
  "img (create_icon size' filename1) = img (create_icon size' filename2) \<and>
   saved (effects (create_icon size' filename1)) = saved (effects (create_icon size' filename2)) \<and>
   saved (fst (main file1)) = saved (fst (main file2))"
proof (intro conjI)
  show "img (create_icon size' filename1) = img (create_icon size' filename2)"
    by (rule img_create_icon)
  show "saved (effects (create_icon size' filename1)) = saved (effects (create_icon size' filename2))"
    using img_create_icon [of size' filename1 filename2]
      raised_create_icon [of size' filename1 filename2]
    by (simp add: saved_create_icon)
  have "saved (fst (main f)) =
          [img (create_icon 16 []), img (create_icon 32 []), img (create_icon 48 []),
           img (create_icon 128 [])]" for f
  proof -
    define d where "d = join (dirname (dirname f)) [''extension'', ''icons'']"
    have "saved (fst (main f)) =
            [img (create_icon 16 (join d [''icon16.png''])), img (create_icon 32 (join d [''icon32.png''])),
             img (create_icon 48 (join d [''icon48.png''])), img (create_icon 128 (join d [''icon128.png'']))]"
      unfolding main_run Let_def d_def [symmetric]
      by (simp add: saved_append saved_summary saved_create_icon returns_at_sizes)
    also have "\<dots> = [img (create_icon 16 []), img (create_icon 32 []), img (create_icon 48 []),
                      img (create_icon 128 [])]"
      using img_create_icon [of 16 "join d [''icon16.png'']" "[]"]
        img_create_icon [of 32 "join d [''icon32.png'']" "[]"]
        img_create_icon [of 48 "join d [''icon48.png'']" "[]"]
        img_create_icon [of 128 "join d [''icon128.png'']" "[]"]
      by (simp only:)
    finally show ?thesis .
  qed
  then show "saved (fst (main file1)) = saved (fst (main file2))" by simp
qed

theorem icon_content_of_size_only_witness:
  "saved (effects (create_icon 32 ''a/icon32.png'')) = saved (effects (create_icon 32 ''b/other.png'')) \<and>
   saved (fst (main ''/home/u/bookmarkable/scripts/create-icons.py'')) =
     saved (fst (main ''/tmp/copy/tools/run.py''))"
  using icon_content_of_size_only [of 32 "''a/icon32.png''" "''b/other.png''"
      "''/home/u/bookmarkable/scripts/create-icons.py''" "''/tmp/copy/tools/run.py''"]
  by simp

end
